theory Spec2Isabelle
  imports Main "HOL-Library.AList"
begin

section \<open>Extraction of translations from SVG switch groups\<close>

text \<open>
  A shallow embedding of \<^verbatim>\<open>extract\<close> from
  \<^verbatim>\<open>CopySvgTranslate/extraction/extractor.py\<close>.

  Python strings are sequences of code points. Here a string is a \<^typ>\<open>string\<close>
  whose characters are read as the code points below 256, so the embedding covers the
  documents written in that range; \<^verbatim>\<open>str.strip\<close>, \<^verbatim>\<open>str.lower\<close> and
  \<^verbatim>\<open>str.isdigit\<close> are modelled as Python defines them on these code points.
\<close>

subsection \<open>Python string operations\<close>

text \<open>
  \<^verbatim>\<open>str.isspace\<close> on one code point: the characters that \<^verbatim>\<open>str.strip()\<close>
  removes. Below 256 these are U+0009..U+000D, U+001C..U+001F, U+0020, U+0085 and U+00A0.
\<close>

definition py_isspace :: "char \<Rightarrow> bool" where
  "py_isspace c =
     (let n = (of_char c :: nat)
      in (9 \<le> n \<and> n \<le> 13) \<or> (28 \<le> n \<and> n \<le> 32) \<or> n = 133 \<or> n = 160)"

text \<open>\<^verbatim>\<open>s.strip()\<close>: leading and trailing whitespace removed.\<close>

definition strip :: "string \<Rightarrow> string" where
  "strip s = rev (dropWhile py_isspace (rev (dropWhile py_isspace s)))"

text \<open>
  \<^verbatim>\<open>str.lower\<close> on one code point below 256: A..Z and U+00C0..U+00DE without
  U+00D7 move up by 32, every other character stays.
\<close>

definition lower_char :: "char \<Rightarrow> char" where
  "lower_char c =
     (let n = (of_char c :: nat)
      in if (65 \<le> n \<and> n \<le> 90) \<or> (192 \<le> n \<and> n \<le> 222 \<and> n \<noteq> 215)
         then char_of (n + 32) else c)"

definition lower :: "string \<Rightarrow> string" where
  "lower s = map lower_char s"

text \<open>
  \<^verbatim>\<open>str.isdigit\<close>: the string is not empty and every character is a digit. Python
  counts as digits the decimal digits 0..9 and also the superscript digits, which below
  256 are U+00B2, U+00B3 and U+00B9.
\<close>

definition digit_char :: "char \<Rightarrow> bool" where
  "digit_char c =
     (let n = (of_char c :: nat)
      in (48 \<le> n \<and> n \<le> 57) \<or> n = 178 \<or> n = 179 \<or> n = 185)"

definition isdigit :: "string \<Rightarrow> bool" where
  "isdigit s = (s \<noteq> [] \<and> list_all digit_char s)"

text \<open>The slices \<^verbatim>\<open>s[-4:]\<close> and \<^verbatim>\<open>s[:-4]\<close>; a string shorter than four
  characters gives the whole string and the empty string.\<close>

definition last4 :: "string \<Rightarrow> string" where
  "last4 s = drop (length s - 4) s"

definition drop_last4 :: "string \<Rightarrow> string" where
  "drop_last4 s = take (length s - 4) s"

text \<open>\<^verbatim>\<open>s.split("-")[0]\<close>: the part before the first hyphen, or all of \<open>s\<close>.\<close>

definition before_hyphen :: "string \<Rightarrow> string" where
  "before_hyphen s = takeWhile (\<lambda>c. c \<noteq> CHR ''-'') s"

text \<open>Truthiness of an optional string: neither \<^verbatim>\<open>None\<close> nor empty.\<close>

fun truthy :: "string option \<Rightarrow> bool" where
  "truthy None = False"
| "truthy (Some s) = (s \<noteq> [])"

text \<open>\<^verbatim>\<open>x.text.strip() if x.text else ""\<close>\<close>

fun text_or_empty :: "string option \<Rightarrow> string" where
  "text_or_empty None = []"
| "text_or_empty (Some s) = (if s = [] then [] else strip s)"

text \<open>
  Modelled from the spec: \<^verbatim>\<open>normalize_text\<close> of \<^verbatim>\<open>text_utils\<close>, which the
  extractor imports and whose source is not part of the files at hand. The specification
  describes it as a pure function that trims leading and trailing whitespace and, when
  case-insensitive mode is enabled, also case-folds; empty input gives the empty string.
  The calls with one argument store case-preserving values, so the flag defaults to off.
\<close>

definition normalize_text :: "string \<Rightarrow> bool \<Rightarrow> string" where
  "normalize_text t case_insensitive =
     (if case_insensitive then lower (strip t) else strip t)"

subsection \<open>Dictionaries\<close>

text \<open>
  A Python dictionary keeps its keys in insertion order, and the title index depends on
  the order in which the phrase index is traversed. A dictionary is therefore an
  association list: \<^const>\<open>AList.update\<close> replaces the value of an existing key in
  place and appends a new key at the end, as \<^verbatim>\<open>d[k] = v\<close> does.
\<close>

type_synonym entry = "(string \<times> string) list"
type_synonym index = "(string \<times> entry) list"

text \<open>A dictionary comprehension, and \<^verbatim>\<open>d.update(other)\<close>: later pairs win.\<close>

definition dict_update :: "('k \<times> 'v) list \<Rightarrow> ('k \<times> 'v) list \<Rightarrow> ('k \<times> 'v) list" where
  "dict_update d other = foldl (\<lambda>acc (k, v). AList.update k v acc) d other"

definition dict_of :: "('k \<times> 'v) list \<Rightarrow> ('k \<times> 'v) list" where
  "dict_of kvs = dict_update [] kvs"

text \<open>\<^verbatim>\<open>d.setdefault(key, {})\<close>\<close>

definition setdefault :: "string \<Rightarrow> index \<Rightarrow> index" where
  "setdefault k d = (case map_of d k of None \<Rightarrow> d @ [(k, [])] | Some _ \<Rightarrow> d)"

subsection \<open>The parsed document\<close>

text \<open>
  The element tree is read through three queries only: all \<^verbatim>\<open>switch\<close> elements of
  the document in document order, the \<^verbatim>\<open>text\<close> children of a switch, and the
  \<^verbatim>\<open>tspan\<close> children of a text element; of an element the code reads the attributes
  \<^verbatim>\<open>systemLanguage\<close> and \<^verbatim>\<open>id\<close> and the leading text. A parsed document is the
  answer to these queries.
\<close>

record tspan =
  tspan_id :: "string option"
  tspan_text :: "string option"

record text_elem =
  systemLanguage :: "string option"
  elem_text :: "string option"
  tspans :: "tspan list"

type_synonym switch = "text_elem list"
type_synonym document = "switch list"

text \<open>What the path leads to: no file, a file that the parser rejects or that cannot
  be read, or a document.\<close>

datatype svg_file = Missing | Unparsable | Parsed document

datatype error = KeyError string

text \<open>One element of \<^verbatim>\<open>default_sequence\<close>.\<close>

record run =
  run_id :: "string option"
  run_text :: string
  run_normalized :: string

record extraction =
  new_index :: "index option"
  title :: index

subsection \<open>Default text elements\<close>

text \<open>\<^verbatim>\<open>text_contents\<close> (lines 65 and 78; lines 103 and 106 build it the same way
  for a translated element).\<close>

definition text_contents :: "text_elem \<Rightarrow> string list" where
  "text_contents te =
     (if tspans te \<noteq> [] then map (\<lambda>t. text_or_empty (tspan_text t)) (tspans te)
      else [text_or_empty (elem_text te)])"

text \<open>The pairs of the comprehension \<^verbatim>\<open>tspans_by_id\<close> (lines 59 to 63).\<close>

fun id_text_pair :: "tspan \<Rightarrow> (string \<times> string) option" where
  "id_text_pair t =
     (case (tspan_text t, tspan_id t) of
        (Some s, Some i) \<Rightarrow> if s \<noteq> [] \<and> i \<noteq> [] then Some (i, strip s) else None
      | _ \<Rightarrow> None)"

definition tspans_by_id :: "tspan list \<Rightarrow> entry" where
  "tspans_by_id ts = dict_of (List.map_filter id_text_pair ts)"

text \<open>The runs that a default text element appends to \<^verbatim>\<open>default_sequence\<close>
  (lines 66 to 76 with sub-runs, lines 79 to 87 without).\<close>

fun tspan_run :: "bool \<Rightarrow> tspan \<Rightarrow> run option" where
  "tspan_run ci t =
     (case tspan_text t of
        None \<Rightarrow> None
      | Some s \<Rightarrow>
          if s = [] then None
          else Some \<lparr>run_id = tspan_id t, run_text = strip s,
                     run_normalized = normalize_text (strip s) ci\<rparr>)"

definition default_runs :: "bool \<Rightarrow> text_elem \<Rightarrow> run list" where
  "default_runs ci te =
     (if tspans te \<noteq> [] then List.map_filter (tspan_run ci) (tspans te)
      else (case elem_text te of
              None \<Rightarrow> []
            | Some s \<Rightarrow>
                if s \<noteq> [] \<and> strip s \<noteq> []
                then [\<lparr>run_id = None, run_text = strip s,
                       run_normalized = normalize_text (strip s) ci\<rparr>]
                else []))"

text \<open>The key under which a normalized default text is seeded, and the seeding loop
  (lines 89 to 92).\<close>

definition key_of :: "bool \<Rightarrow> string \<Rightarrow> string" where
  "key_of ci t = (if ci then lower t else t)"

definition seed :: "bool \<Rightarrow> string list \<Rightarrow> index \<Rightarrow> index" where
  "seed ci texts idx =
     foldl (\<lambda>acc t. setdefault (key_of ci (normalize_text t ci)) acc) idx texts"

text \<open>
  One default text element (the body of the loop of lines 52 to 92). With sub-runs, the
  identifier map of the element is merged into
  \<^verbatim>\<open>translations["new"]["default_tspans_by_id"]\<close> (line 64); the subscript raises
  \<^verbatim>\<open>KeyError\<close> when the phrase index has no such key.
\<close>

definition collect_default ::
  "bool \<Rightarrow> text_elem \<Rightarrow> index \<times> run list \<Rightarrow> error + (index \<times> run list)" where
  "collect_default ci te st =
     (case st of (idx, ds) \<Rightarrow>
        if tspans te \<noteq> [] then
          (case map_of idx ''default_tspans_by_id'' of
             None \<Rightarrow> Inl (KeyError ''default_tspans_by_id'')
           | Some e \<Rightarrow>
               Inr (seed ci (text_contents te)
                      (AList.update ''default_tspans_by_id''
                         (dict_update e (tspans_by_id (tspans te))) idx),
                    ds @ default_runs ci te))
        else Inr (seed ci (text_contents te) idx, ds @ default_runs ci te))"

fun default_pass ::
  "bool \<Rightarrow> text_elem list \<Rightarrow> index \<times> run list \<Rightarrow> error + (index \<times> run list)" where
  "default_pass ci [] st = Inr st"
| "default_pass ci (te # tes) st =
     (if truthy (systemLanguage te) then default_pass ci tes st
      else (case collect_default ci te st of
              Inl e \<Rightarrow> Inl e
            | Inr st' \<Rightarrow> default_pass ci tes st'))"

subsection \<open>Translated text elements\<close>

text \<open>The pairs of the comprehension \<^verbatim>\<open>tspans_to_id\<close> (line 101), and the map, which
  is empty for an element without sub-runs (line 105).\<close>

fun text_id_pair :: "tspan \<Rightarrow> (string \<times> string) option" where
  "text_id_pair t =
     (case (tspan_text t, tspan_id t) of
        (Some s, Some i) \<Rightarrow>
          if s \<noteq> [] \<and> strip s \<noteq> [] \<and> i \<noteq> [] then Some (strip s, i) else None
      | _ \<Rightarrow> None)"

definition tspans_to_id :: "text_elem \<Rightarrow> entry" where
  "tspans_to_id te =
     (if tspans te \<noteq> [] then dict_of (List.map_filter text_id_pair (tspans te)) else [])"

text \<open>\<^verbatim>\<open>base_id\<close> (lines 112 to 116): the identifier found for the run's text, cut at
  the first hyphen.\<close>

definition base_id :: "entry \<Rightarrow> string \<Rightarrow> string option" where
  "base_id to_id text =
     (case map_of to_id (strip text) of
        None \<Rightarrow> None
      | Some i \<Rightarrow> if i = [] then None else Some (strip (before_hyphen i)))"

text \<open>\<^verbatim>\<open>a or b\<close> on optional strings.\<close>

definition py_or :: "string option \<Rightarrow> string option \<Rightarrow> string option" where
  "py_or a b = (if truthy a then a else b)"

text \<open>The lookup of the base identifier, verbatim and then lowercased, in
  \<^verbatim>\<open>translations["new"]["default_tspans_by_id"]\<close> (lines 118 to 123); the
  subscript raises \<^verbatim>\<open>KeyError\<close> when the phrase index has no such key.\<close>

definition lookup_by_id :: "index \<Rightarrow> string option \<Rightarrow> error + string option" where
  "lookup_by_id idx b =
     (case b of
        None \<Rightarrow> Inr None
      | Some i \<Rightarrow>
          if i = [] then Inr None
          else (case map_of idx ''default_tspans_by_id'' of
                  None \<Rightarrow> Inl (KeyError ''default_tspans_by_id'')
                | Some e \<Rightarrow> Inr (py_or (map_of e i) (map_of e (lower i)))))"

text \<open>The positional fallback (lines 125 and 126).\<close>

definition positional :: "run list \<Rightarrow> nat \<Rightarrow> string option \<Rightarrow> string option" where
  "positional ds i english =
     (if \<not> truthy english \<and> i < length ds then Some (run_text (ds ! i)) else english)"

definition resolve ::
  "index \<Rightarrow> entry \<Rightarrow> run list \<Rightarrow> nat \<Rightarrow> string \<Rightarrow> error + string option" where
  "resolve idx to_id ds i text =
     (case lookup_by_id idx (base_id to_id text) of
        Inl e \<Rightarrow> Inl e
      | Inr english \<Rightarrow> Inr (positional ds i english))"

text \<open>The storage key and the write into the entry of that key (lines 132 to 134).\<close>

definition store_key :: "index \<Rightarrow> string \<Rightarrow> string" where
  "store_key idx english = (if map_of idx english \<noteq> None then english else lower english)"

definition store :: "string \<Rightarrow> string \<Rightarrow> string \<Rightarrow> index \<Rightarrow> index" where
  "store lang english translation idx =
     (case map_of idx (store_key idx english) of
        None \<Rightarrow> idx
      | Some e \<Rightarrow> AList.update (store_key idx english) (AList.update lang translation e) idx)"

text \<open>One run of a translated element (the body of the loop of lines 110 to 134), the
  loop over the runs with their positions, and the loop over the translated elements of
  a switch group (lines 94 to 134).\<close>

definition translated_run ::
  "string \<Rightarrow> entry \<Rightarrow> run list \<Rightarrow> nat \<Rightarrow> string \<Rightarrow> index \<Rightarrow> error + index" where
  "translated_run lang to_id ds i text idx =
     (case resolve idx to_id ds i text of
        Inl e \<Rightarrow> Inl e
      | Inr english \<Rightarrow>
          (case english of
             None \<Rightarrow> Inr idx
           | Some en \<Rightarrow>
               if en = [] then Inr idx
               else Inr (store lang en (normalize_text text False) idx)))"

fun translated_runs ::
  "string \<Rightarrow> entry \<Rightarrow> run list \<Rightarrow> nat \<Rightarrow> string list \<Rightarrow> index \<Rightarrow> error + index" where
  "translated_runs lang to_id ds i [] idx = Inr idx"
| "translated_runs lang to_id ds i (text # rest) idx =
     (case translated_run lang to_id ds i text idx of
        Inl e \<Rightarrow> Inl e
      | Inr idx' \<Rightarrow> translated_runs lang to_id ds (Suc i) rest idx')"

fun translated_pass :: "run list \<Rightarrow> text_elem list \<Rightarrow> index \<Rightarrow> error + index" where
  "translated_pass ds [] idx = Inr idx"
| "translated_pass ds (te # tes) idx =
     (case systemLanguage te of
        None \<Rightarrow> translated_pass ds tes idx
      | Some lang \<Rightarrow>
          if lang = [] then translated_pass ds tes idx
          else (case translated_runs lang (tspans_to_id te) ds 0 (text_contents te) idx of
                  Inl e \<Rightarrow> Inl e
                | Inr idx' \<Rightarrow> translated_pass ds tes idx'))"

subsection \<open>Switch groups, the title index and the result\<close>

text \<open>
  \<^verbatim>\<open>switch_translations\<close>, \<^verbatim>\<open>default_texts\<close> beyond the seeding loop and
  \<^verbatim>\<open>processed_switches\<close> only reach log messages and are left out, as is the
  dictionary \<^verbatim>\<open>default_tspans_by_id\<close> that the function creates and never reads.
\<close>

text \<open>One switch group (the body of the loop of lines 40 to 139) and the loop.\<close>

definition process_switch :: "bool \<Rightarrow> switch \<Rightarrow> index \<Rightarrow> error + index" where
  "process_switch ci sw idx =
     (if sw = [] then Inr idx
      else (case default_pass ci sw (idx, []) of
              Inl e \<Rightarrow> Inl e
            | Inr (idx', ds) \<Rightarrow> translated_pass ds sw idx'))"

fun process_switches :: "bool \<Rightarrow> document \<Rightarrow> index \<Rightarrow> error + index" where
  "process_switches ci [] idx = Inr idx"
| "process_switches ci (sw # sws) idx =
     (case process_switch ci sw idx of
        Inl e \<Rightarrow> Inl e
      | Inr idx' \<Rightarrow> process_switches ci sws idx')"

text \<open>The title index (lines 143 to 148).\<close>

definition strip_years :: "entry \<Rightarrow> entry" where
  "strip_years mapping = dict_of (map (\<lambda>(lang, text). (lang, drop_last4 text)) mapping)"

definition title_step :: "index \<Rightarrow> string \<times> entry \<Rightarrow> index" where
  "title_step t item =
     (case item of (key, mapping) \<Rightarrow>
        if key \<noteq> [] \<and> isdigit (last4 key) then
          (let year = last4 key
           in if key \<noteq> year \<and>
                 list_all (\<lambda>v. isdigit (last4 v) \<and> last4 v = year) (map snd mapping)
              then AList.update (drop_last4 key) (strip_years mapping) t
              else t)
        else t)"

definition title_index :: "index \<Rightarrow> index" where
  "title_index idx = foldl title_step [] idx"

text \<open>
  \<^verbatim>\<open>extract\<close>. \<open>Inl\<close> is an exception that leaves the function; \<open>Inr None\<close>
  is the return value \<^verbatim>\<open>None\<close>.
\<close>

definition "extract" :: "svg_file \<Rightarrow> bool \<Rightarrow> error + extraction option" where
  "extract file case_insensitive =
     (case file of
        Missing \<Rightarrow> Inr None
      | Unparsable \<Rightarrow> Inr None
      | Parsed doc \<Rightarrow>
          (case process_switches case_insensitive doc [] of
             Inl e \<Rightarrow> Inl e
           | Inr idx \<Rightarrow>
               Inr (Some \<lparr>new_index = (if idx = [] then None else Some idx),
                                title = title_index idx\<rparr>)))"

subsection \<open>Notions used in the statements\<close>

text \<open>The keys of a dictionary.\<close>

definition keys :: "('k \<times> 'v) list \<Rightarrow> 'k set" where
  "keys d = fst ` set d"

text \<open>
  The texts that the default text elements of a switch group, and of a whole document,
  hand to the seeding loop: the \<^verbatim>\<open>text_contents\<close> of every text element without
  a (non-empty) \<^verbatim>\<open>systemLanguage\<close>.
\<close>

definition switch_defaults :: "switch \<Rightarrow> string list" where
  "switch_defaults sw =
     concat (map text_contents (filter (\<lambda>te. \<not> truthy (systemLanguage te)) sw))"

definition default_contents :: "document \<Rightarrow> string list" where
  "default_contents doc = concat (map switch_defaults doc)"

text \<open>A text that is absent, empty or whitespace only.\<close>

definition blank :: "string option \<Rightarrow> bool" where
  "blank x = (case x of None \<Rightarrow> True | Some s \<Rightarrow> strip s = [])"

text \<open>
  The condition for a title entry in the words of the specification, with the digits that
  \<^const>\<open>digit_char\<close> accepts: the key is longer than four characters, its last four
  characters are digits, and every value of the entry ends in the same four characters.
\<close>

definition year_suffixed :: "string \<Rightarrow> entry \<Rightarrow> bool" where
  "year_suffixed K m =
     (4 < length K \<and> list_all digit_char (last4 K) \<and>
      list_all (\<lambda>v. last4 v = last4 K) (map snd m))"

text \<open>
  An identifier is known to the phrase index when the entry under
  \<^verbatim>\<open>"default_tspans_by_id"\<close> has it as a key: this entry is the map that the
  resolver consults.
\<close>

definition id_known :: "index \<Rightarrow> string \<Rightarrow> bool" where
  "id_known idx i =
     (case map_of idx ''default_tspans_by_id'' of None \<Rightarrow> False | Some e \<Rightarrow> i \<in> keys e)"





text \<open>
  A Python dictionary has every key once. An index is well formed when this holds of the
  index and of each of its entries, so that \<^const>\<open>map_of\<close> is the dictionary lookup.
\<close>

definition well_formed :: "index \<Rightarrow> bool" where
  "well_formed idx =
     (distinct (map fst idx) \<and> (\<forall>k e. (k, e) \<in> set idx \<longrightarrow> distinct (map fst e)))"

section \<open>Facts about the string operations\<close>

lemma dropWhile_strip: "dropWhile py_isspace (strip s) = strip s"
  unfolding strip_def
  by (metis (no_types, lifting) ext Nil_is_rev_conv dropWhile_eq_Nil_conv
    dropWhile_eq_self_iff dropWhile_last hd_dropWhile hd_rev
    last_rev)

lemma strip_idem: "strip (strip s) = strip s"
proof -
  have "rev (strip s) = dropWhile py_isspace (rev (dropWhile py_isspace s))"
    by (simp add: strip_def)
  then have "dropWhile py_isspace (rev (strip s)) = rev (strip s)"
    by (simp add: dropWhile_idem)
  then have "rev (dropWhile py_isspace (rev (dropWhile py_isspace (strip s)))) = strip s"
    by (simp add: dropWhile_strip)
  then show ?thesis by (subst strip_def) simp
qed

lemma strip_Nil: "strip [] = []" by (simp add: strip_def)



lemma lower_Nil_iff: "lower s = [] \<longleftrightarrow> s = []"
  by (simp add: lower_def)

section \<open>The keys of the phrase index\<close>

text \<open>
  Seeding adds keys; a write into an entry never adds or removes one.
\<close>

lemma keys_map_of: "k \<in> keys d \<longleftrightarrow> map_of d k \<noteq> None"
  by (simp add: keys_def map_of_eq_None_iff)

lemma keys_Nil: "keys [] = {}" by (simp add: keys_def)

lemma keys_empty_iff: "keys d = {} \<longleftrightarrow> d = []" by (simp add: keys_def)

lemma keys_update: "keys (AList.update k v d) = insert k (keys d)"
  by (simp add: keys_def dom_update)

lemma keys_setdefault: "keys (setdefault k d) = insert k (keys d)"
proof (cases "map_of d k")
  case None
  then show ?thesis by (simp add: setdefault_def keys_def)
next
  case (Some e)
  then have "k \<in> keys d" by (simp add: keys_map_of)
  with Some show ?thesis by (auto simp add: setdefault_def)
qed

lemma keys_seed:
  "keys (seed ci ts idx) = keys idx \<union> (\<lambda>t. key_of ci (normalize_text t ci)) ` set ts"
  unfolding seed_def
  by (induction ts arbitrary: idx) (auto simp add: keys_setdefault)

lemma keys_Cons: "keys (p # d) = insert (fst p) (keys d)" by (simp add: keys_def)

lemma keys_dict_update: "keys (dict_update d other) = keys d \<union> keys other"
  unfolding dict_update_def
  by (induction other arbitrary: d) (simp_all add: keys_update keys_Cons keys_Nil split_beta)

lemma keys_update_present:
  "map_of idx k = Some e \<Longrightarrow> keys (AList.update k v idx) = keys idx"
proof -
  assume "map_of idx k = Some e"
  then have "k \<in> keys idx" by (simp add: keys_map_of)
  then show ?thesis by (auto simp add: keys_update)
qed

lemma keys_store: "keys (store lang en tr idx) = keys idx"
  by (auto simp add: store_def keys_update_present split: option.splits)

lemma keys_translated_run:
  "translated_run lang to_id ds i text idx = Inr idx' \<Longrightarrow> keys idx' = keys idx"
  by (auto simp add: translated_run_def keys_store split: sum.splits option.splits if_splits)

lemma keys_translated_runs:
  "translated_runs lang to_id ds i texts idx = Inr idx' \<Longrightarrow> keys idx' = keys idx"
proof (induction texts arbitrary: i idx)
  case Nil
  then show ?case by simp
next
  case (Cons t ts)
  then show ?case
    by (auto split: sum.splits dest: keys_translated_run)
qed

lemma keys_translated_pass:
  "translated_pass ds tes idx = Inr idx' \<Longrightarrow> keys idx' = keys idx"
proof (induction tes arbitrary: idx)
  case Nil
  then show ?case by simp
next
  case (Cons te tes)
  then show ?case
    by (auto split: sum.splits option.splits if_splits dest: keys_translated_runs)
qed

lemma keys_collect_default:
  assumes "collect_default ci te (idx, ds) = Inr (idx', ds')"
  shows "keys idx' = keys idx \<union> (\<lambda>t. key_of ci (normalize_text t ci)) ` set (text_contents te)"
  using assms
  by (auto simp add: collect_default_def keys_seed keys_update_present
      split: if_splits option.splits)

lemma keys_default_pass:
  "default_pass ci tes (idx, ds) = Inr (idx', ds') \<Longrightarrow>
   keys idx' = keys idx \<union> (\<lambda>t. key_of ci (normalize_text t ci)) ` set (switch_defaults tes)"
proof (induction tes arbitrary: idx ds)
  case Nil
  then show ?case by (simp add: switch_defaults_def)
next
  case (Cons te tes)
  show ?case
  proof (cases "truthy (systemLanguage te)")
    case True
    with Cons show ?thesis by (simp add: switch_defaults_def)
  next
    case False
    with Cons.prems obtain idx1 ds1 where
      c: "collect_default ci te (idx, ds) = Inr (idx1, ds1)" and
      d: "default_pass ci tes (idx1, ds1) = Inr (idx', ds')"
      by (auto split: sum.splits)
    from Cons.IH [OF d] keys_collect_default [OF c] False
    show ?thesis by (auto simp add: switch_defaults_def)
  qed
qed

lemma keys_process_switch:
  assumes "process_switch ci sw idx = Inr idx'"
  shows "keys idx' = keys idx \<union> (\<lambda>t. key_of ci (normalize_text t ci)) ` set (switch_defaults sw)"
proof (cases "sw = []")
  case True
  with assms show ?thesis by (simp add: process_switch_def switch_defaults_def)
next
  case False
  with assms obtain idx1 ds where
    d: "default_pass ci sw (idx, []) = Inr (idx1, ds)" and
    t: "translated_pass ds sw idx1 = Inr idx'"
    by (auto simp add: process_switch_def split: sum.splits)
  from keys_default_pass [OF d] keys_translated_pass [OF t] show ?thesis by simp
qed

lemma keys_process_switches:
  "process_switches ci doc idx = Inr idx' \<Longrightarrow>
   keys idx' = keys idx \<union> (\<lambda>t. key_of ci (normalize_text t ci)) ` set (default_contents doc)"
proof (induction doc arbitrary: idx)
  case Nil
  then show ?case by (simp add: default_contents_def)
next
  case (Cons sw sws)
  then obtain idx1 where
    s: "process_switch ci sw idx = Inr idx1" and
    r: "process_switches ci sws idx1 = Inr idx'"
    by (auto split: sum.splits)
  from Cons.IH [OF r] keys_process_switch [OF s] show ?case
    by (auto simp add: default_contents_def)
qed

section \<open>Default texts and the empty key\<close>

lemma text_or_empty_Nil_iff: "text_or_empty x = [] \<longleftrightarrow> blank x"
  by (cases x) (auto simp add: blank_def strip_Nil)

lemma Nil_eq_text_or_empty: "[] = text_or_empty x \<longleftrightarrow> blank x"
  using text_or_empty_Nil_iff [of x] by auto

lemma text_or_empty_stripped: "strip (text_or_empty x) = text_or_empty x"
  by (cases x) (simp_all add: strip_Nil strip_idem)

lemma text_contents_stripped: "t \<in> set (text_contents te) \<Longrightarrow> strip t = t"
  by (auto simp add: text_contents_def text_or_empty_stripped split: if_splits)

lemma default_contents_stripped: "t \<in> set (default_contents doc) \<Longrightarrow> strip t = t"
  by (auto simp add: default_contents_def switch_defaults_def text_contents_stripped)

lemma key_of_normalize_Nil_iff: "key_of ci (normalize_text t ci) = [] \<longleftrightarrow> strip t = []"
  by (simp add: key_of_def normalize_text_def lower_Nil_iff)

lemma Nil_eq_key_of_normalize: "[] = key_of ci (normalize_text t ci) \<longleftrightarrow> strip t = []"
  using key_of_normalize_Nil_iff [of ci t] by auto

lemma text_contents_not_Nil: "text_contents te \<noteq> []"
  by (simp add: text_contents_def)

lemma Nil_in_text_contents:
  "[] \<in> set (text_contents te) \<longleftrightarrow>
   (if tspans te = [] then blank (elem_text te)
    else (\<exists>t \<in> set (tspans te). blank (tspan_text t)))"
  by (auto simp add: text_contents_def text_or_empty_Nil_iff Nil_eq_text_or_empty image_iff)

lemma Nil_in_default_contents:
  "[] \<in> set (default_contents doc) \<longleftrightarrow>
   (\<exists>sw \<in> set doc. \<exists>te \<in> set sw. \<not> truthy (systemLanguage te) \<and>
      (if tspans te = [] then blank (elem_text te)
       else (\<exists>t \<in> set (tspans te). blank (tspan_text t))))"
  unfolding default_contents_def switch_defaults_def
  by (simp add: Nil_in_text_contents Bex_def)

lemma default_contents_Nil_iff:
  "default_contents doc = [] \<longleftrightarrow> (\<forall>sw \<in> set doc. \<forall>te \<in> set sw. truthy (systemLanguage te))"
  unfolding default_contents_def switch_defaults_def
  by (auto simp add: text_contents_not_Nil filter_empty_conv)

lemma extract_ParsedD:
  assumes "extract (Parsed doc) ci = Inr (Some r)"
  obtains idx where "process_switches ci doc [] = Inr idx"
    and "new_index r = (if idx = [] then None else Some idx)"
    and "title r = title_index idx"
  using assms by (auto simp add: extract_def split: sum.splits)

section \<open>The title index as a fold\<close>

lemma last4_eq_self_iff: "last4 s = s \<longleftrightarrow> length s \<le> 4"
proof
  assume "last4 s = s"
  then have "length (drop (length s - 4) s) = length s" by (simp add: last4_def)
  then show "length s \<le> 4" by simp
next
  assume "length s \<le> 4"
  then show "last4 s = s" by (simp add: last4_def)
qed

lemma length_last4: "4 < length s \<Longrightarrow> length (last4 s) = 4"
  by (simp add: last4_def)

lemma title_step_unfold:
  "title_step t (K, m) =
     (if year_suffixed K m then AList.update (drop_last4 K) (strip_years m) t else t)"
proof (cases "4 < length K")
  case True
  then have a: "K \<noteq> []" "K \<noteq> last4 K" "last4 K \<noteq> []"
    using last4_eq_self_iff [of K] length_last4 [of K] by auto
  have "list_all (\<lambda>v. isdigit (last4 v) \<and> last4 v = last4 K) (map snd m) \<longleftrightarrow>
        list_all (\<lambda>v. last4 v = last4 K) (map snd m)" if "isdigit (last4 K)"
    using that by (auto simp add: list_all_iff)
  with True a show ?thesis
    by (auto simp add: title_step_def year_suffixed_def isdigit_def Let_def)
next
  case False
  then have "last4 K = K" by (simp add: last4_eq_self_iff)
  with False show ?thesis
    by (simp add: title_step_def year_suffixed_def Let_def)
qed

lemma keys_title_fold:
  "keys (foldl title_step t idx) =
   keys t \<union> {drop_last4 K | K m. (K, m) \<in> set idx \<and> year_suffixed K m}"
proof (induction idx arbitrary: t)
  case Nil
  then show ?case by simp
next
  case (Cons p idx)
  obtain K m where p: "p = (K, m)" by (cases p)
  show ?case
    unfolding p foldl_Cons Cons.IH title_step_unfold
    by (auto simp add: keys_update)
qed

lemma map_of_title_fold:
  "map_of (foldl title_step t idx) T = Some v \<Longrightarrow>
   map_of t T = Some v \<or>
   (\<exists>K m. (K, m) \<in> set idx \<and> year_suffixed K m \<and> T = drop_last4 K \<and> v = strip_years m)"
proof (induction idx arbitrary: t)
  case Nil
  then show ?case by simp
next
  case (Cons p idx)
  obtain K m where p: "p = (K, m)" by (cases p)
  from Cons.prems have "map_of (foldl title_step (title_step t (K, m)) idx) T = Some v"
    by (simp add: p)
  from Cons.IH [OF this] show ?case
    unfolding p title_step_unfold
    by (auto simp add: update_conv' split: if_splits)
qed

lemma set_update_subset: "set (AList.update k v d) \<subseteq> insert (k, v) (set d)"
  by (induction d) auto

lemma set_dict_update_subset: "set (dict_update d other) \<subseteq> set d \<union> set other"
  unfolding dict_update_def
proof (induction other arbitrary: d)
  case Nil
  then show ?case by simp
next
  case (Cons p other)
  obtain k v where p: "p = (k, v)" by (cases p)
  have "set (foldl (\<lambda>acc (k, v). AList.update k v acc) (AList.update k v d) other)
          \<subseteq> set (AList.update k v d) \<union> set other"
    by (rule Cons.IH)
  with set_update_subset [of k v d] show ?case by (auto simp add: p)
qed

lemma strip_years_content:
  "keys (strip_years m) = keys m \<and>
   set (strip_years m) \<subseteq> (\<lambda>(lang, text). (lang, drop_last4 text)) ` set m"
proof -
  have "keys (strip_years m) = keys (map (\<lambda>(lang, text). (lang, drop_last4 text)) m)"
    by (simp add: strip_years_def dict_of_def keys_dict_update keys_Nil)
  also have "\<dots> = keys m" by (force simp add: keys_def)
  finally have a: "keys (strip_years m) = keys m" .
  have "set (strip_years m) \<subseteq> set (map (\<lambda>(lang, text). (lang, drop_last4 text)) m)"
    using set_dict_update_subset [of "[]" "map (\<lambda>(lang, text). (lang, drop_last4 text)) m"]
    by (simp add: strip_years_def dict_of_def)
  with a show ?thesis by simp
qed

section \<open>The identifier map inside the phrase index\<close>

text \<open>
  Once an identifier is a key of the entry, every later step keeps it there.
\<close>

lemma map_of_setdefault_Some:
  "map_of idx k = Some e \<Longrightarrow> map_of (setdefault k' idx) k = Some e"
  by (simp add: setdefault_def split: option.splits)

lemma map_of_seed_Some:
  "map_of idx k = Some e \<Longrightarrow> map_of (seed ci ts idx) k = Some e"
  unfolding seed_def
  by (induction ts arbitrary: idx) (simp_all add: map_of_setdefault_Some)

lemma id_known_seed: "id_known idx i \<Longrightarrow> id_known (seed ci ts idx) i"
  by (auto simp add: id_known_def map_of_seed_Some split: option.splits)

lemma id_known_store: "id_known idx i \<Longrightarrow> id_known (store lang en tr idx) i"
  by (auto simp add: id_known_def store_def update_conv' keys_update split: option.splits)

lemma id_known_translated_run:
  "translated_run lang to_id ds n text idx = Inr idx' \<Longrightarrow> id_known idx i \<Longrightarrow> id_known idx' i"
  by (auto simp add: translated_run_def id_known_store split: sum.splits option.splits if_splits)

lemma id_known_translated_runs:
  "translated_runs lang to_id ds n texts idx = Inr idx' \<Longrightarrow> id_known idx i \<Longrightarrow> id_known idx' i"
proof (induction texts arbitrary: n idx)
  case Nil
  then show ?case by simp
next
  case (Cons t ts)
  then show ?case
    by (auto split: sum.splits dest: id_known_translated_run)
qed

lemma id_known_translated_pass:
  "translated_pass ds tes idx = Inr idx' \<Longrightarrow> id_known idx i \<Longrightarrow> id_known idx' i"
proof (induction tes arbitrary: idx)
  case Nil
  then show ?case by simp
next
  case (Cons te tes)
  then show ?case
    by (auto split: sum.splits option.splits if_splits dest: id_known_translated_runs)
qed

lemma id_known_collect_default:
  assumes "collect_default ci te (idx, ds) = Inr (idx', ds')" and "id_known idx i"
  shows "id_known idx' i"
proof (cases "tspans te = []")
  case True
  with assms show ?thesis by (auto simp add: collect_default_def id_known_seed)
next
  case False
  with assms obtain e where
    e: "map_of idx ''default_tspans_by_id'' = Some e" and
    r: "idx' = seed ci (text_contents te)
                 (AList.update ''default_tspans_by_id''
                    (dict_update e (tspans_by_id (tspans te))) idx)"
    by (auto simp add: collect_default_def split: option.splits)
  from assms(2) e have "i \<in> keys e" by (simp add: id_known_def)
  then have "id_known (AList.update ''default_tspans_by_id''
                    (dict_update e (tspans_by_id (tspans te))) idx) i"
    by (simp add: id_known_def update_conv' keys_dict_update)
  then show ?thesis unfolding r by (rule id_known_seed)
qed

lemma keys_map_filter:
  "f x = Some (k, v) \<Longrightarrow> x \<in> set xs \<Longrightarrow> k \<in> keys (List.map_filter f xs)"
  by (force simp add: keys_def map_filter_def)

lemma collect_default_learns:
  assumes "collect_default ci te (idx, ds) = Inr (idx', ds')"
    and "t \<in> set (tspans te)" and "tspan_id t = Some i" and "i \<noteq> []"
    and "truthy (tspan_text t)"
  shows "id_known idx' i"
proof -
  from assms(2) have ne: "tspans te \<noteq> []" by auto
  with assms(1) obtain e where
    e: "map_of idx ''default_tspans_by_id'' = Some e" and
    r: "idx' = seed ci (text_contents te)
                 (AList.update ''default_tspans_by_id''
                    (dict_update e (tspans_by_id (tspans te))) idx)"
    by (auto simp add: collect_default_def split: option.splits)
  from assms(3-5) obtain s where "id_text_pair t = Some (i, strip s)"
    by (cases "tspan_text t") auto
  with assms(2) have "i \<in> keys (tspans_by_id (tspans te))"
    by (simp add: tspans_by_id_def dict_of_def keys_dict_update keys_Nil keys_map_filter)
  then have "id_known (AList.update ''default_tspans_by_id''
                    (dict_update e (tspans_by_id (tspans te))) idx) i"
    by (simp add: id_known_def update_conv' keys_dict_update)
  then show ?thesis unfolding r by (rule id_known_seed)
qed

lemma id_known_default_pass:
  "default_pass ci tes (idx, ds) = Inr (idx', ds') \<Longrightarrow> id_known idx i \<Longrightarrow> id_known idx' i"
proof (induction tes arbitrary: idx ds)
  case Nil
  then show ?case by simp
next
  case (Cons te tes)
  then show ?case
    by (auto split: sum.splits if_splits dest: id_known_collect_default)
qed

lemma default_pass_learns:
  "default_pass ci tes (idx, ds) = Inr (idx', ds') \<Longrightarrow> te \<in> set tes \<Longrightarrow>
   \<not> truthy (systemLanguage te) \<Longrightarrow> t \<in> set (tspans te) \<Longrightarrow> tspan_id t = Some i \<Longrightarrow>
   i \<noteq> [] \<Longrightarrow> truthy (tspan_text t) \<Longrightarrow> id_known idx' i"
proof (induction tes arbitrary: idx ds)
  case Nil
  then show ?case by simp
next
  case (Cons x tes)
  show ?case
  proof (cases "truthy (systemLanguage x)")
    case True
    with Cons.prems have "default_pass ci tes (idx, ds) = Inr (idx', ds')" "te \<in> set tes"
      by auto
    with Cons.IH Cons.prems show ?thesis by blast
  next
    case False
    with Cons.prems obtain idx1 ds1 where
      c: "collect_default ci x (idx, ds) = Inr (idx1, ds1)" and
      d: "default_pass ci tes (idx1, ds1) = Inr (idx', ds')"
      by (auto split: sum.splits)
    show ?thesis
    proof (cases "te = x")
      case True
      with c Cons.prems have "id_known idx1 i" by (blast intro: collect_default_learns)
      with d show ?thesis by (rule id_known_default_pass)
    next
      case False
      with Cons.prems have "te \<in> set tes" by simp
      with Cons.IH d Cons.prems show ?thesis by blast
    qed
  qed
qed

lemma id_known_process_switch:
  "process_switch ci sw idx = Inr idx' \<Longrightarrow> id_known idx i \<Longrightarrow> id_known idx' i"
  by (auto simp add: process_switch_def split: if_splits sum.splits
      dest: id_known_default_pass id_known_translated_pass)

lemma process_switch_learns:
  assumes "process_switch ci sw idx = Inr idx'" and "te \<in> set sw"
    and "\<not> truthy (systemLanguage te)" and "t \<in> set (tspans te)" and "tspan_id t = Some i"
    and "i \<noteq> []" and "truthy (tspan_text t)"
  shows "id_known idx' i"
proof -
  from assms(2) have "sw \<noteq> []" by auto
  with assms(1) obtain idx1 ds where
    d: "default_pass ci sw (idx, []) = Inr (idx1, ds)" and
    t: "translated_pass ds sw idx1 = Inr idx'"
    by (auto simp add: process_switch_def split: sum.splits)
  from default_pass_learns [OF d assms(2-7)] have "id_known idx1 i" .
  with t show ?thesis by (rule id_known_translated_pass)
qed

lemma id_known_process_switches:
  "process_switches ci doc idx = Inr idx' \<Longrightarrow> id_known idx i \<Longrightarrow> id_known idx' i"
proof (induction doc arbitrary: idx)
  case Nil
  then show ?case by simp
next
  case (Cons sw sws)
  then show ?case
    by (auto split: sum.splits dest: id_known_process_switch)
qed

lemma process_switches_learns:
  "process_switches ci doc idx = Inr idx' \<Longrightarrow> sw \<in> set doc \<Longrightarrow> te \<in> set sw \<Longrightarrow>
   \<not> truthy (systemLanguage te) \<Longrightarrow> t \<in> set (tspans te) \<Longrightarrow> tspan_id t = Some i \<Longrightarrow>
   i \<noteq> [] \<Longrightarrow> truthy (tspan_text t) \<Longrightarrow> id_known idx' i"
proof (induction doc arbitrary: idx)
  case Nil
  then show ?case by simp
next
  case (Cons x sws)
  from Cons.prems(1) obtain idx1 where
    s: "process_switch ci x idx = Inr idx1" and
    r: "process_switches ci sws idx1 = Inr idx'"
    by (auto split: sum.splits)
  show ?case
  proof (cases "sw = x")
    case True
    with s Cons.prems have "id_known idx1 i" by (blast intro: process_switch_learns)
    with r show ?thesis by (rule id_known_process_switches)
  next
    case False
    with Cons.prems have "sw \<in> set sws" by simp
    with Cons.IH r Cons.prems show ?thesis by blast
  qed
qed


text \<open>
  When extraction returns, the identifiers of all default sub-runs with text are keys of
  the entry \<^verbatim>\<open>"default_tspans_by_id"\<close> of the returned phrase index.
\<close>

lemma identifier_map_in_result:
  assumes "extract (Parsed doc) ci = Inr (Some r)"
    and "sw \<in> set doc" and "te \<in> set sw" and "\<not> truthy (systemLanguage te)"
    and "t \<in> set (tspans te)" and "tspan_id t = Some i" and "i \<noteq> []"
    and "truthy (tspan_text t)"
  shows "\<exists>idx e. new_index r = Some idx \<and>
                 map_of idx ''default_tspans_by_id'' = Some e \<and> i \<in> keys e"
proof -
  from assms(1) obtain idx where
    p: "process_switches ci doc [] = Inr idx" and
    n: "new_index r = (if idx = [] then None else Some idx)"
    by (rule extract_ParsedD)
  from process_switches_learns [OF p assms(2-8)] have k: "id_known idx i" .
  then obtain e where e: "map_of idx ''default_tspans_by_id'' = Some e" "i \<in> keys e"
    by (auto simp add: id_known_def split: option.splits)
  then have "idx \<noteq> []" by auto
  with n e show ?thesis by simp
qed

section \<open>The values of the entries\<close>


















section \<open>Default runs and their seeded keys\<close>











section \<open>Dictionaries keep their keys distinct\<close>

text \<open>
  Every index that the extraction builds, and the title index, has each key once.
\<close>

lemma well_formed_Nil: "well_formed []"
  by (simp add: well_formed_def)

lemma distinct_dict_update:
  "distinct (map fst d) \<Longrightarrow> distinct (map fst (dict_update d other))"
  unfolding dict_update_def
  by (induction other arbitrary: d) (simp_all add: distinct_update split_beta)

lemma distinct_dict_of: "distinct (map fst (dict_of kvs))"
  by (simp add: dict_of_def distinct_dict_update)

lemma well_formed_setdefault: "well_formed idx \<Longrightarrow> well_formed (setdefault k idx)"
proof (cases "map_of idx k")
  case None
  assume w: "well_formed idx"
  from None have "k \<notin> fst ` set idx" by (simp add: map_of_eq_None_iff)
  with w None show ?thesis by (auto simp add: well_formed_def setdefault_def)
next
  case (Some e)
  assume "well_formed idx"
  with Some show ?thesis by (simp add: setdefault_def)
qed

lemma well_formed_seed: "well_formed idx \<Longrightarrow> well_formed (seed ci ts idx)"
  unfolding seed_def
  by (induction ts arbitrary: idx) (simp_all add: well_formed_setdefault)

lemma well_formed_update:
  assumes "well_formed idx" and "distinct (map fst e)"
  shows "well_formed (AList.update k e idx)"
  using assms set_update_subset [of k e idx]
  unfolding well_formed_def by (auto simp add: distinct_update)

lemma well_formed_store: "well_formed idx \<Longrightarrow> well_formed (store lang en tr idx)"
proof (cases "map_of idx (store_key idx en)")
  case None
  assume "well_formed idx"
  with None show ?thesis by (simp add: store_def)
next
  case (Some e)
  assume w: "well_formed idx"
  from Some have "(store_key idx en, e) \<in> set idx" by (rule map_of_SomeD)
  with w have "distinct (map fst e)" unfolding well_formed_def by blast
  then have "distinct (map fst (AList.update lang tr e))" by (rule distinct_update)
  with w Some show ?thesis by (simp add: store_def well_formed_update)
qed

lemma well_formed_translated_run:
  "translated_run lang to_id ds n text idx = Inr idx' \<Longrightarrow> well_formed idx \<Longrightarrow> well_formed idx'"
  by (auto simp add: translated_run_def well_formed_store
      split: sum.splits option.splits if_splits)

lemma well_formed_translated_runs:
  "translated_runs lang to_id ds n texts idx = Inr idx' \<Longrightarrow> well_formed idx \<Longrightarrow>
   well_formed idx'"
proof (induction texts arbitrary: n idx)
  case Nil
  then show ?case by simp
next
  case (Cons t ts)
  then show ?case
    by (auto split: sum.splits dest: well_formed_translated_run)
qed

lemma well_formed_translated_pass:
  "translated_pass ds tes idx = Inr idx' \<Longrightarrow> well_formed idx \<Longrightarrow> well_formed idx'"
proof (induction tes arbitrary: idx)
  case Nil
  then show ?case by simp
next
  case (Cons te tes)
  then show ?case
    by (auto split: sum.splits option.splits if_splits dest: well_formed_translated_runs)
qed

lemma well_formed_collect_default:
  assumes "collect_default ci te (idx, ds) = Inr (idx', ds')" and "well_formed idx"
  shows "well_formed idx'"
proof (cases "tspans te = []")
  case True
  with assms show ?thesis by (auto simp add: collect_default_def well_formed_seed)
next
  case False
  with assms obtain e where
    e: "map_of idx ''default_tspans_by_id'' = Some e" and
    r: "idx' = seed ci (text_contents te)
                 (AList.update ''default_tspans_by_id''
                    (dict_update e (tspans_by_id (tspans te))) idx)"
    by (auto simp add: collect_default_def split: option.splits)
  from e have "(''default_tspans_by_id'', e) \<in> set idx" by (rule map_of_SomeD)
  with assms(2) have "distinct (map fst e)" unfolding well_formed_def by blast
  then have "distinct (map fst (dict_update e (tspans_by_id (tspans te))))"
    by (rule distinct_dict_update)
  with assms(2) show ?thesis unfolding r
    by (simp add: well_formed_seed well_formed_update)
qed

lemma well_formed_default_pass:
  "default_pass ci tes (idx, ds) = Inr (idx', ds') \<Longrightarrow> well_formed idx \<Longrightarrow> well_formed idx'"
proof (induction tes arbitrary: idx ds)
  case Nil
  then show ?case by simp
next
  case (Cons te tes)
  then show ?case
    by (auto split: sum.splits if_splits dest: well_formed_collect_default)
qed

lemma well_formed_process_switch:
  "process_switch ci sw idx = Inr idx' \<Longrightarrow> well_formed idx \<Longrightarrow> well_formed idx'"
  by (auto simp add: process_switch_def split: if_splits sum.splits
      dest: well_formed_default_pass well_formed_translated_pass)

lemma well_formed_process_switches:
  "process_switches ci doc idx = Inr idx' \<Longrightarrow> well_formed idx \<Longrightarrow> well_formed idx'"
proof (induction doc arbitrary: idx)
  case Nil
  then show ?case by simp
next
  case (Cons sw sws)
  then show ?case
    by (auto split: sum.splits dest: well_formed_process_switch)
qed

lemma well_formed_title_fold:
  "well_formed t \<Longrightarrow> well_formed (foldl title_step t idx)"
proof (induction idx arbitrary: t)
  case Nil
  then show ?case by simp
next
  case (Cons p idx)
  obtain K m where p: "p = (K, m)" by (cases p)
  from Cons.prems have "well_formed (title_step t (K, m))"
    by (simp add: title_step_unfold strip_years_def well_formed_update distinct_dict_of)
  with Cons.IH show ?case by (simp add: p)
qed

lemma extract_well_formed:
  assumes "extract src ci = Inr (Some r)"
  shows "well_formed (title r) \<and> (\<forall>idx. new_index r = Some idx \<longrightarrow> well_formed idx)"
proof -
  from assms obtain doc where f: "src = Parsed doc"
    by (cases src) (auto simp add: extract_def)
  from assms [unfolded f] obtain idx0 where
    p: "process_switches ci doc [] = Inr idx0" and
    n: "new_index r = (if idx0 = [] then None else Some idx0)" and
    t: "title r = title_index idx0"
    by (rule extract_ParsedD)
  from p have "well_formed idx0" using well_formed_Nil by (rule well_formed_process_switches)
  moreover have "well_formed (title r)"
    unfolding t title_index_def using well_formed_Nil by (rule well_formed_title_fold)
  ultimately show ?thesis using n by (auto split: if_splits)
qed

section \<open>The positional fallback\<close>

text \<open>
  When the lookup of the identifier returns and finds no text, a run at a position within
  the default sequence takes the text of the default run at that position, and its
  translation is stored for that text unless the text is empty.
\<close>

lemma positional_when_lookup_returns:
  assumes "lookup_by_id idx (base_id to_id text) = Inr english"
    and "\<not> truthy english"
    and "i < length ds"
  shows "resolve idx to_id ds i text = Inr (Some (run_text (ds ! i))) \<and>
         translated_run lang to_id ds i text idx =
           Inr (if run_text (ds ! i) = [] then idx
                else store lang (run_text (ds ! i)) (normalize_text text False) idx)"
proof -
  from assms have r: "resolve idx to_id ds i text = Inr (Some (run_text (ds ! i)))"
    by (simp add: resolve_def positional_def)
  then have "translated_run lang to_id ds i text idx =
           Inr (if run_text (ds ! i) = [] then idx
                else store lang (run_text (ds ! i)) (normalize_text text False) idx)"
    by (simp add: translated_run_def)
  with r show ?thesis by (rule conjI)
qed

text \<open>A default text and a German text without identifiers, in both modes.\<close>

lemma positional_without_identifiers:
  "extract (Parsed [[\<lparr>systemLanguage = None, elem_text = Some ''Hello'', tspans = []\<rparr>,
                     \<lparr>systemLanguage = Some ''de'', elem_text = Some ''Hallo'', tspans = []\<rparr>]])
           True
     = Inr (Some \<lparr>new_index = Some [(''hello'', [(''de'', ''Hallo'')])], title = []\<rparr>) \<and>
   extract (Parsed [[\<lparr>systemLanguage = None, elem_text = Some ''Hello'', tspans = []\<rparr>,
                     \<lparr>systemLanguage = Some ''de'', elem_text = Some ''Hallo'', tspans = []\<rparr>]])
           False
     = Inr (Some \<lparr>new_index = Some [(''Hello'', [(''de'', ''Hallo'')])], title = []\<rparr>)"
  by code_simp

section \<open>Failures of the file and of the parser\<close>

text \<open>
  C5 as stated: a missing path gives a \<^verbatim>\<open>NotFound\<close> failure and a malformed or
  unreadable file a \<^verbatim>\<open>ParseError\<close> failure, the two being distinguished from each
  other. The function returns \<^verbatim>\<open>None\<close> on both paths, so the two results are the
  same value.
\<close>

theorem missing_and_unparsable_same_result:
  "extract Missing True = extract Unparsable True"
  by (simp add: extract_def)

text \<open>
  C5, amended: a missing path and a file that cannot be parsed or read both make
  \<^verbatim>\<open>extract\<close> return \<^verbatim>\<open>None\<close>, without an exception and without a partial
  index; this one failure value differs from every value returned for a parsed document.
\<close>

theorem failure_is_none:
  "extract Missing ci = Inr None \<and> extract Unparsable ci = Inr None \<and>
   extract (Parsed doc) ci \<noteq> Inr None"
  by (simp add: extract_def split: sum.splits)

section \<open>The uninitialised identifier map\<close>

text \<open>
  C1: for every parsed document \<^verbatim>\<open>extract\<close> returns without raising, in particular
  when a default text element has sub-runs and when the base identifier of a translated
  sub-run is resolved. The code subscripts \<^verbatim>\<open>translations["new"]\<close> with
  \<^verbatim>\<open>"default_tspans_by_id"\<close>, a key that nothing creates: a default text element
  with one sub-run raises \<^verbatim>\<open>KeyError\<close>, and so does a translated sub-run with an
  identifier.
\<close>

theorem default_sub_run_raises:
  "extract (Parsed [[\<lparr>systemLanguage = None, elem_text = None,
                      tspans = [\<lparr>tspan_id = Some ''id1'', tspan_text = Some ''Hello''\<rparr>]\<rparr>]])
           True
     = Inl (KeyError ''default_tspans_by_id'') \<and>
   extract (Parsed [[\<lparr>systemLanguage = None, elem_text = Some ''Hello'', tspans = []\<rparr>,
                     \<lparr>systemLanguage = Some ''fr'', elem_text = None,
                      tspans = [\<lparr>tspan_id = Some ''t1-fr'', tspan_text = Some ''Bonjour''\<rparr>]\<rparr>]])
           True
     = Inl (KeyError ''default_tspans_by_id'')"
  by code_simp

text \<open>
  C2: a default sub-run \<open>id1\<close> with text Hello and a French sub-run \<open>id1-fr\<close>
  with text Bonjour give an entry for Hello that maps \<open>fr\<close> to Bonjour. On exactly this
  document the code raises \<^verbatim>\<open>KeyError\<close> at the default sub-run, in both modes,
  and returns no index.
\<close>

theorem cross_reference_raises:
  "extract (Parsed [[\<lparr>systemLanguage = None, elem_text = None,
                      tspans = [\<lparr>tspan_id = Some ''id1'', tspan_text = Some ''Hello''\<rparr>]\<rparr>,
                     \<lparr>systemLanguage = Some ''fr'', elem_text = None,
                      tspans = [\<lparr>tspan_id = Some ''id1-fr'', tspan_text = Some ''Bonjour''\<rparr>]\<rparr>]])
           True
     = Inl (KeyError ''default_tspans_by_id'') \<and>
   extract (Parsed [[\<lparr>systemLanguage = None, elem_text = None,
                      tspans = [\<lparr>tspan_id = Some ''id1'', tspan_text = Some ''Hello''\<rparr>]\<rparr>,
                     \<lparr>systemLanguage = Some ''fr'', elem_text = None,
                      tspans = [\<lparr>tspan_id = Some ''id1-fr'', tspan_text = Some ''Bonjour''\<rparr>]\<rparr>]])
           False
     = Inl (KeyError ''default_tspans_by_id'')"
  by code_simp

section \<open>The keys of the phrase index and the omission rule\<close>

text \<open>
  C3 as stated: every key of the phrase index is non-empty, also when a default text
  element has empty, whitespace-only or absent text. A default text element without text
  puts \<^verbatim>\<open>""\<close> into \<^verbatim>\<open>text_contents\<close>, and the seeding loop creates an
  entry for every member of it: the index of this document has the empty key.
\<close>

theorem empty_key_seeded:
  "extract (Parsed [[\<lparr>systemLanguage = None, elem_text = None, tspans = []\<rparr>]]) True
     = Inr (Some \<lparr>new_index = Some [([], [])], title = []\<rparr>)"
  by code_simp

text \<open>
  C3, amended: when the result contains a phrase index, its keys are exactly the
  normalized texts (trimmed, lowercased in case-insensitive mode) of the default text
  elements and of their sub-runs, an empty or absent text counting as the empty string.
  The empty key is present if and only if some default text element without sub-runs, or
  some sub-run of a default text element, has empty, whitespace-only or absent text.
\<close>

theorem index_keys:
  assumes "extract (Parsed doc) ci = Inr (Some r)" and "new_index r = Some idx"
  shows "keys idx = (\<lambda>t. key_of ci (normalize_text t ci)) ` set (default_contents doc) \<and>
         ([] \<in> keys idx \<longleftrightarrow>
            (\<exists>sw \<in> set doc. \<exists>te \<in> set sw. \<not> truthy (systemLanguage te) \<and>
               (if tspans te = [] then blank (elem_text te)
                else (\<exists>t \<in> set (tspans te). blank (tspan_text t)))))"
proof -
  from assms(1) obtain idx0 where
    p: "process_switches ci doc [] = Inr idx0" and
    n: "new_index r = (if idx0 = [] then None else Some idx0)"
    by (rule extract_ParsedD)
  from n assms(2) have "idx0 = idx" by (simp split: if_splits)
  with keys_process_switches [OF p]
  have k: "keys idx = (\<lambda>t. key_of ci (normalize_text t ci)) ` set (default_contents doc)"
    by (simp add: keys_Nil)
  have "[] \<in> keys idx \<longleftrightarrow> (\<exists>t \<in> set (default_contents doc). strip t = [])"
    by (auto simp add: k key_of_normalize_Nil_iff Nil_eq_key_of_normalize image_iff)
  also have "\<dots> \<longleftrightarrow> [] \<in> set (default_contents doc)"
    using default_contents_stripped strip_Nil by metis
  finally show ?thesis using k by (simp add: Nil_in_default_contents)
qed

text \<open>
  The amended C3 at a switch group with the default texts \<open>Hello\<close> and an element
  without text: the second one brings the empty key.
\<close>

theorem index_keys_witness:
  "extract (Parsed [[\<lparr>systemLanguage = None, elem_text = Some '' Hello '', tspans = []\<rparr>,
                     \<lparr>systemLanguage = None, elem_text = None, tspans = []\<rparr>]]) True
     = Inr (Some \<lparr>new_index = Some [(''hello'', []), ([], [])], title = []\<rparr>) \<and>
   [] \<in> keys ([(''hello'', []), ([], [])] :: index)"
proof -
  have h: "extract (Parsed [[\<lparr>systemLanguage = None, elem_text = Some '' Hello '', tspans = []\<rparr>,
                     \<lparr>systemLanguage = None, elem_text = None, tspans = []\<rparr>]]) True
     = Inr (Some \<lparr>new_index = Some [(''hello'', []), ([], [])], title = []\<rparr>)"
    by code_simp
  have n: "new_index \<lparr>new_index = Some [(''hello'', []), ([], [])], title = []\<rparr>
             = Some [(''hello'', []), ([], [])]"
    by simp
  have "[] \<in> keys ([(''hello'', []), ([], [])] :: index)"
    using index_keys [OF h n, THEN conjunct2] by (simp add: blank_def)
  with h show ?thesis by simp
qed

text \<open>
  C4 as stated: a document with switch groups and no non-empty default text gives a
  result without phrase index. A default text element that holds only whitespace is
  such a document, and its result has a phrase index, with the empty key.
\<close>

theorem blank_default_text_keeps_index:
  "extract (Parsed [[\<lparr>systemLanguage = None, elem_text = Some ''  '', tspans = []\<rparr>]]) False
     = Inr (Some \<lparr>new_index = Some [([], [])], title = []\<rparr>)"
  by code_simp

text \<open>
  C4, amended: whenever extraction of a parsed document returns, the phrase index is
  absent if and only if no switch group has a default text element at all (every text
  child carries a non-empty \<^verbatim>\<open>systemLanguage\<close>); the title index is then present
  and empty.
\<close>

theorem no_default_no_index:
  assumes "extract (Parsed doc) ci = Inr (Some r)"
  shows "(new_index r = None \<longleftrightarrow>
            (\<forall>sw \<in> set doc. \<forall>te \<in> set sw. truthy (systemLanguage te))) \<and>
         (new_index r = None \<longrightarrow> title r = [])"
proof -
  from assms obtain idx where
    p: "process_switches ci doc [] = Inr idx" and
    n: "new_index r = (if idx = [] then None else Some idx)" and
    t: "title r = title_index idx"
    by (rule extract_ParsedD)
  from keys_process_switches [OF p]
  have "keys idx = {} \<longleftrightarrow> default_contents doc = []" by (simp add: keys_Nil)
  then have "idx = [] \<longleftrightarrow> default_contents doc = []" by (simp add: keys_empty_iff)
  with n t show ?thesis
    by (auto simp add: default_contents_Nil_iff title_index_def)
qed

text \<open>
  The amended C4 at a switch group with a French text element only.
\<close>

theorem no_default_no_index_witness:
  "extract (Parsed [[\<lparr>systemLanguage = Some ''fr'', elem_text = Some ''Bonjour'', tspans = []\<rparr>]]) True
     = Inr (Some \<lparr>new_index = None, title = []\<rparr>) \<and>
   new_index \<lparr>new_index = None, title = []\<rparr> = None"
proof -
  have h: "extract (Parsed [[\<lparr>systemLanguage = Some ''fr'', elem_text = Some ''Bonjour'', tspans = []\<rparr>]]) True
     = Inr (Some \<lparr>new_index = None, title = []\<rparr>)"
    by code_simp
  from no_default_no_index [OF h] show ?thesis using h by simp
qed

section \<open>Title entries\<close>

text \<open>
  C6 as stated: a title entry is created only if the last four characters of the key are
  ASCII digits. \<^verbatim>\<open>str.isdigit\<close> also accepts the superscript digits: the key
  \<open>ab\<close> followed by four times U+00B2 gets the title entry \<open>ab\<close>.
\<close>

theorem superscript_year_title:
  "extract (Parsed [[\<lparr>systemLanguage = None,
                      elem_text = Some [CHR ''a'', CHR ''b'', CHR 0xB2, CHR 0xB2, CHR 0xB2, CHR 0xB2],
                      tspans = []\<rparr>]]) True
     = Inr (Some \<lparr>new_index = Some [([CHR ''a'', CHR ''b'', CHR 0xB2, CHR 0xB2, CHR 0xB2, CHR 0xB2], [])],
                   title = [(''ab'', [])]\<rparr>) \<and>
   CHR 0xB2 \<notin> set ''0123456789''"
  by code_simp

text \<open>
  C6, amended: after all groups are processed, the title index has an entry under \<open>T\<close>
  if and only if some key \<open>K\<close> of the completed phrase index is \<open>T\<close> followed by
  four more characters, \<open>K\<close> is longer than four characters, its last four characters
  are digits in the sense of \<^verbatim>\<open>str.isdigit\<close> (the ASCII digits and the superscript
  digits), and every value of the entry of \<open>K\<close> ends in the same four characters. The
  value of a title entry comes from such a key \<open>K\<close>: it has the languages of the entry
  of \<open>K\<close>, each with a translation of that entry without its last four characters.
\<close>

theorem title_entries:
  assumes "extract src ci = Inr (Some r)"
    and "idx = (case new_index r of None \<Rightarrow> [] | Some i \<Rightarrow> i)"
  shows "(T \<in> keys (title r) \<longleftrightarrow>
            (\<exists>K m. (K, m) \<in> set idx \<and> T = drop_last4 K \<and> 4 < length K \<and>
                   list_all digit_char (last4 K) \<and>
                   list_all (\<lambda>v. last4 v = last4 K) (map snd m))) \<and>
         (map_of (title r) T = Some e \<longrightarrow>
            (\<exists>K m. (K, m) \<in> set idx \<and> T = drop_last4 K \<and> 4 < length K \<and>
                   list_all digit_char (last4 K) \<and>
                   list_all (\<lambda>v. last4 v = last4 K) (map snd m) \<and>
                   keys e = keys m \<and>
                   set e \<subseteq> (\<lambda>(lang, text). (lang, drop_last4 text)) ` set m))"
proof -
  from assms(1) obtain doc where f: "src = Parsed doc"
    by (cases src) (auto simp add: extract_def)
  from assms(1) [unfolded f] obtain idx0 where
    n: "new_index r = (if idx0 = [] then None else Some idx0)" and
    t: "title r = title_index idx0"
    by (rule extract_ParsedD)
  from n assms(2) have i: "idx0 = idx" by (simp split: if_splits)
  have 1: "T \<in> keys (title r) \<longleftrightarrow>
        (\<exists>K m. (K, m) \<in> set idx \<and> T = drop_last4 K \<and> year_suffixed K m)"
    unfolding t i title_index_def keys_title_fold by (auto simp add: keys_Nil)
  have 2: "\<exists>K m. (K, m) \<in> set idx \<and> T = drop_last4 K \<and> year_suffixed K m \<and>
             keys e = keys m \<and> set e \<subseteq> (\<lambda>(lang, text). (lang, drop_last4 text)) ` set m"
    if "map_of (title r) T = Some e"
    using map_of_title_fold [of "[]" idx T e] that strip_years_content
    unfolding t i title_index_def by fastforce
  from 1 2 show ?thesis unfolding year_suffixed_def by blast
qed

text \<open>
  The amended C6 at \<open>Paris2023\<close> with the French translation \<open>Paris2023\<close>.
\<close>

theorem title_entries_witness:
  "extract (Parsed [[\<lparr>systemLanguage = None, elem_text = Some ''Paris2023'', tspans = []\<rparr>,
                     \<lparr>systemLanguage = Some ''fr'', elem_text = Some ''Paris2023'', tspans = []\<rparr>]]) False
     = Inr (Some \<lparr>new_index = Some [(''Paris2023'', [(''fr'', ''Paris2023'')])],
                   title = [(''Paris'', [(''fr'', ''Paris'')])]\<rparr>) \<and>
   ''Paris'' \<in> keys [(''Paris'', [(''fr'', ''Paris'')])]"
proof -
  have h: "extract (Parsed [[\<lparr>systemLanguage = None, elem_text = Some ''Paris2023'', tspans = []\<rparr>,
                     \<lparr>systemLanguage = Some ''fr'', elem_text = Some ''Paris2023'', tspans = []\<rparr>]]) False
     = Inr (Some \<lparr>new_index = Some [(''Paris2023'', [(''fr'', ''Paris2023'')])],
                   title = [(''Paris'', [(''fr'', ''Paris'')])]\<rparr>)"
    by code_simp
  have k: "(''Paris2023'', [(''fr'', ''Paris2023'')]) \<in> set [(''Paris2023'', [(''fr'', ''Paris2023'')])]"
    by simp
  have "''Paris'' \<in> keys (title \<lparr>new_index = Some [(''Paris2023'', [(''fr'', ''Paris2023'')])],
                   title = [(''Paris'', [(''fr'', ''Paris'')])]\<rparr>)"
    apply (subst title_entries [OF h refl, THEN conjunct1])
    apply (rule exI [of _ "''Paris2023''"])
    apply (rule exI [of _ "[(''fr'', ''Paris2023'')]"])
    apply (simp add: drop_last4_def last4_def digit_char_def)
    done
  then show ?thesis using h by simp
qed

section \<open>Runs with an identifier and the positional fallback\<close>

text \<open>
  C7: a translated run that does not resolve through the identifier map takes the default
  run at its position when the position is within the default sequence. This document has
  one default run \<open>Hello\<close> without identifier, so that position 0 is within the
  sequence that the default pass collects, and a German sub-run with the identifier
  \<open>t1\<close>, which no default sub-run has. The lookup of \<open>t1\<close> subscripts the phrase
  index with \<^verbatim>\<open>"default_tspans_by_id"\<close> and raises \<^verbatim>\<open>KeyError\<close>; the
  run never reaches the fallback.
\<close>

theorem unknown_identifier_raises:
  "extract (Parsed [[\<lparr>systemLanguage = None, elem_text = Some ''Hello'', tspans = []\<rparr>,
                     \<lparr>systemLanguage = Some ''de'', elem_text = None,
                      tspans = [\<lparr>tspan_id = Some ''t1'', tspan_text = Some ''Hallo''\<rparr>]\<rparr>]])
           True
     = Inl (KeyError ''default_tspans_by_id'') \<and>
   default_pass True [\<lparr>systemLanguage = None, elem_text = Some ''Hello'', tspans = []\<rparr>,
                      \<lparr>systemLanguage = Some ''de'', elem_text = None,
                       tspans = [\<lparr>tspan_id = Some ''t1'', tspan_text = Some ''Hallo''\<rparr>]\<rparr>]
                ([], [])
     = Inr ([(''hello'', [])], [\<lparr>run_id = None, run_text = ''Hello'', run_normalized = ''hello''\<rparr>])"
  by code_simp

section \<open>Scope of the identifier map\<close>




section \<open>Case-insensitive mode disabled\<close>




section \<open>Empty translated sub-runs\<close>




end
